theory Spec2Isabelle
  imports Main "HOL-Library.Multiset"
begin

section \<open>Results and errors\<close>

text \<open>
  The model follows \<^verbatim>\<open>lookup.go\<close>.  The second copy of the package differs from it in
  the errors (status errors that carry a message), in the separator (an option) and in
  the matching of names (a list of match functions in place of \<^verbatim>\<open>CaseInsentitive\<close>);
  the parsing of a segment, the resolution of a segment, the aggregation and the merge
  are the same in both.
\<close>

text \<open>
  The three sentinel errors of \<^verbatim>\<open>lookup.go\<close>.  A Go function of this package either
  returns a value, returns one of these errors, or panics (a run-time panic of the
  \<^verbatim>\<open>reflect\<close> package or of a slice expression); the three outcomes are the three
  constructors of \<open>result\<close>.
\<close>

datatype error = ErrMalformedIndex | ErrInvalidIndexUsage | ErrKeyNotFound

datatype 'a result = Ok 'a | Err error | Panic

section \<open>Strings\<close>

text \<open>
  Go strings are byte sequences; \<open>string\<close> is a list of bytes.  The separator and the
  two bracket tokens are single ASCII bytes, so \<^verbatim>\<open>strings.Index\<close> with such a token is
  the position of the first occurrence of that byte, or \<open>-1\<close>.
\<close>

definition SplitToken :: char where
  "SplitToken = CHR ''.''"

definition IndexCloseChar :: char where
  "IndexCloseChar = CHR '']''"

definition IndexOpenChar :: char where
  "IndexOpenChar = CHR ''[''"

fun Index :: "string \<Rightarrow> char \<Rightarrow> int" where
  "Index [] c = -1"
| "Index (x # xs) c =
     (if x = c then 0
      else (let r = Index xs c in if r = -1 then -1 else r + 1))"

text \<open>\<^verbatim>\<open>strings.Split(path, ".")\<close>: one more piece than there are separators.\<close>

fun Split :: "string \<Rightarrow> char \<Rightarrow> string list" where
  "Split [] c = [[]]"
| "Split (x # xs) c =
     (if x = c then [] # Split xs c
      else (case Split xs c of
              [] \<Rightarrow> [[x]]
            | p # ps \<Rightarrow> (x # p) # ps))"

text \<open>
  The slice expression \<^verbatim>\<open>s[lo:hi]\<close> on a string: it panics unless
  \<open>0 \<le> lo \<le> hi \<le> len(s)\<close>.
\<close>

definition substr :: "string \<Rightarrow> int \<Rightarrow> int \<Rightarrow> string option" where
  "substr s lo hi =
     (if 0 \<le> lo \<and> lo \<le> hi \<and> hi \<le> int (length s)
      then Some (take (nat (hi - lo)) (drop (nat lo) s))
      else None)"

text \<open>
  \<^verbatim>\<open>strconv.Atoi\<close>: an optional sign, then at least one decimal digit and nothing else;
  the value must fit the 64-bit \<^verbatim>\<open>int\<close>.
\<close>

definition is_digit :: "char \<Rightarrow> bool" where
  "is_digit c = ((48::nat) \<le> of_char c \<and> of_char c \<le> (57::nat))"

fun digits_val :: "string \<Rightarrow> int \<Rightarrow> int option" where
  "digits_val [] acc = Some acc"
| "digits_val (c # cs) acc =
     (if is_digit c then digits_val cs (acc * 10 + (of_char c - 48)) else None)"

definition Atoi :: "string \<Rightarrow> int option" where
  "Atoi s =
     (let (neg, ds) =
            (case s of
               [] \<Rightarrow> (False, [])
             | c # r \<Rightarrow>
                 if c = CHR ''-'' then (True, r)
                 else if c = CHR ''+'' then (False, r)
                 else (False, s))
      in if ds = [] then None
         else (case digits_val ds 0 of
                 None \<Rightarrow> None
               | Some n \<Rightarrow>
                   (let v = (if neg then - n else n)
                    in if - (2 ^ 63) \<le> v \<and> v < 2 ^ 63 then Some v else None)))"

text \<open>
  \<^verbatim>\<open>strings.EqualFold\<close> is outside the package: it compares two strings under the
  simple case folding of Unicode, whose tables are not part of this development.  The
  functions below that call it take the relation as their first argument, named
  \<open>EqualFold\<close>, and every statement about them holds for whatever relation that is.
  On two ASCII strings \<^verbatim>\<open>strings.EqualFold\<close> is equality after mapping \<open>A..Z\<close> to
  \<open>a..z\<close>; \<open>asciiEqualFold\<close> is that relation, and it is put for \<open>EqualFold\<close> on
  the fixtures only, whose names and keys are ASCII.
\<close>

type_synonym folding = "string \<Rightarrow> string \<Rightarrow> bool"

definition to_lower :: "char \<Rightarrow> char" where
  "to_lower c =
     (if (65::nat) \<le> of_char c \<and> of_char c \<le> (90::nat)
      then char_of (of_char c + (32::nat)) else c)"

definition asciiEqualFold :: folding where
  "asciiEqualFold s t = (map to_lower s = map to_lower t)"

section \<open>The path parser\<close>

definition hasIndex :: "string \<Rightarrow> bool" where
  "hasIndex s = (Index s IndexOpenChar \<noteq> -1)"

definition parseIndex :: "string \<Rightarrow> (string \<times> int) result" where
  "parseIndex s =
     (let start = Index s IndexOpenChar;
          end = Index s IndexCloseChar
      in if start = -1 \<and> end = -1 then Ok (s, -1)
         else if (start \<noteq> -1 \<and> end = -1) \<or> (start = -1 \<and> end \<noteq> -1)
              then Err ErrMalformedIndex
         else (case substr s (start + 1) end of
                 None \<Rightarrow> Panic
               | Some digits \<Rightarrow>
                   (case Atoi digits of
                      None \<Rightarrow> Err ErrMalformedIndex
                    | Some index \<Rightarrow>
                        (case substr s 0 start of
                           None \<Rightarrow> Panic
                         | Some name \<Rightarrow> Ok (name, index)))))"

section \<open>Values and types\<close>

text \<open>
  The part of \<^verbatim>\<open>reflect\<close> that the package uses.  A \<open>gtype\<close> is a
  \<^verbatim>\<open>reflect.Type\<close>; struct types are nominal and their fields are looked up in a type
  environment, so that recursive struct types such as \<^verbatim>\<open>MyStruct\<close> of the tests can
  be written.  A \<open>val\<close> is a \<^verbatim>\<open>reflect.Value\<close>: \<open>VInvalid\<close> is the zero Value,
  \<open>VPtr t VInvalid\<close> the nil pointer and \<open>VIface VInvalid\<close> the nil interface.  A map
  holds its entries in the order in which \<^verbatim>\<open>MapRange\<close> and \<^verbatim>\<open>MapKeys\<close> yield them;
  Go leaves that order unspecified, so two entry lists that are permutations of each
  other stand for the same Go map.  Structs have exported, non-embedded fields, in
  declaration order.  A named type that is not a struct is identified with its
  underlying type.

  \<^verbatim>\<open>json.Unmarshal\<close> is outside the package.  It is a function of the bytes of the
  string, and what it decodes is finite; a string value therefore carries, next to its
  bytes, the entries of the \<^verbatim>\<open>map[string]interface{}\<close> that \<^verbatim>\<open>json.Unmarshal\<close> decodes
  from it (\<open>None\<close> when decoding fails).
\<close>

datatype kind =
  KInvalid | KBool | KInt | KFloat64 | KString | KArray | KSlice | KMap | KPtr
| KInterface | KStruct

datatype gtype =
  TBool | TInt | TFloat64 | TString
| TArray nat gtype | TSlice gtype | TMap gtype gtype | TPtr gtype
| TInterface | TStruct string

datatype mkey = KeyString string | KeyInt int

datatype val =
  VInvalid
| VBool bool
| VInt int
| VFloat64 int
| VString string "(mkey \<times> val) list option"
| VArray gtype "val list"
| VSlice gtype "val list"
| VMap gtype gtype "(mkey \<times> val) list"
| VPtr gtype val
| VIface val
| VStruct string "(string \<times> val) list"

type_synonym tenv = "string \<Rightarrow> (string \<times> gtype) list"

record Options =
  ExpandStringAsJSON :: bool
  CaseInsentitive :: bool

fun Kind_t :: "gtype \<Rightarrow> kind" where
  "Kind_t TBool = KBool"
| "Kind_t TInt = KInt"
| "Kind_t TFloat64 = KFloat64"
| "Kind_t TString = KString"
| "Kind_t (TArray n t) = KArray"
| "Kind_t (TSlice t) = KSlice"
| "Kind_t (TMap k t) = KMap"
| "Kind_t (TPtr t) = KPtr"
| "Kind_t TInterface = KInterface"
| "Kind_t (TStruct n) = KStruct"

text \<open>\<^verbatim>\<open>Type.Elem\<close> panics on a type that has no element type.\<close>

fun Elem_t :: "gtype \<Rightarrow> gtype option" where
  "Elem_t (TArray n t) = Some t"
| "Elem_t (TSlice t) = Some t"
| "Elem_t (TMap k t) = Some t"
| "Elem_t (TPtr t) = Some t"
| "Elem_t t = None"

fun Kind :: "val \<Rightarrow> kind" where
  "Kind VInvalid = KInvalid"
| "Kind (VBool b) = KBool"
| "Kind (VInt n) = KInt"
| "Kind (VFloat64 x) = KFloat64"
| "Kind (VString s j) = KString"
| "Kind (VArray t xs) = KArray"
| "Kind (VSlice t xs) = KSlice"
| "Kind (VMap k t es) = KMap"
| "Kind (VPtr t v) = KPtr"
| "Kind (VIface v) = KInterface"
| "Kind (VStruct n fs) = KStruct"

definition IsValid :: "val \<Rightarrow> bool" where
  "IsValid v = (Kind v \<noteq> KInvalid)"

text \<open>\<^verbatim>\<open>Value.Type\<close> panics on the zero Value.\<close>

fun Type :: "val \<Rightarrow> gtype option" where
  "Type VInvalid = None"
| "Type (VBool b) = Some TBool"
| "Type (VInt n) = Some TInt"
| "Type (VFloat64 x) = Some TFloat64"
| "Type (VString s j) = Some TString"
| "Type (VArray t xs) = Some (TArray (length xs) t)"
| "Type (VSlice t xs) = Some (TSlice t)"
| "Type (VMap k t es) = Some (TMap k t)"
| "Type (VPtr t v) = Some (TPtr t)"
| "Type (VIface v) = Some TInterface"
| "Type (VStruct n fs) = Some (TStruct n)"

text \<open>\<^verbatim>\<open>Value.Elem\<close> of a pointer or an interface; the zero Value when it is nil.\<close>

fun Elem :: "val \<Rightarrow> val" where
  "Elem (VPtr t v) = v"
| "Elem (VIface v) = v"
| "Elem v = VInvalid"

text \<open>
  \<^verbatim>\<open>reflect.ValueOf(v.Interface())\<close>: passing a value through \<^verbatim>\<open>interface{}\<close> keeps its
  dynamic value only.
\<close>

fun Interface :: "val \<Rightarrow> val" where
  "Interface (VIface v) = v"
| "Interface v = v"

text \<open>\<^verbatim>\<open>Value.Len\<close> panics on a value that has no length.\<close>

fun Len :: "val \<Rightarrow> nat option" where
  "Len (VString s j) = Some (length s)"
| "Len (VArray t xs) = Some (length xs)"
| "Len (VSlice t xs) = Some (length xs)"
| "Len (VMap k t es) = Some (length es)"
| "Len v = None"

text \<open>\<^verbatim>\<open>Value.Index\<close> on a slice panics when the index is out of range.\<close>

definition Value_Index :: "val list \<Rightarrow> int \<Rightarrow> val option" where
  "Value_Index xs i =
     (if 0 \<le> i \<and> i < int (length xs) then Some (xs ! nat i) else None)"

definition FieldByName :: "(string \<times> val) list \<Rightarrow> string \<Rightarrow> val" where
  "FieldByName fs key = (case map_of fs key of None \<Rightarrow> VInvalid | Some x \<Rightarrow> x)"

definition MapIndex :: "(mkey \<times> val) list \<Rightarrow> mkey \<Rightarrow> val" where
  "MapIndex es k = (case map_of es k of None \<Rightarrow> VInvalid | Some x \<Rightarrow> x)"

text \<open>\<^verbatim>\<open>Value.String\<close> of a map key.\<close>

fun key_String :: "mkey \<Rightarrow> string" where
  "key_String (KeyString s) = s"
| "key_String (KeyInt n) = ''<int Value>''"

section \<open>The value resolver\<close>

fun getRealValue :: "val \<Rightarrow> val" where
  "getRealValue (VPtr t v) = getRealValue v"
| "getRealValue (VIface v) = getRealValue v"
| "getRealValue v = v"

text \<open>
  The \<^verbatim>\<open>reflect.Struct\<close> case of the switch: the field of that name, and under
  \<^verbatim>\<open>CaseInsentitive\<close> otherwise the first field whose name is equal under folding.
\<close>

definition matchField :: "folding \<Rightarrow> (string \<times> val) list \<Rightarrow> string \<Rightarrow> Options \<Rightarrow> val" where
  "matchField EqualFold fs key opts =
     (let value = FieldByName fs key
      in if CaseInsentitive opts \<and> Kind value = KInvalid
         then (case find (\<lambda>(n, x). EqualFold n key) fs of
                 None \<Rightarrow> value
               | Some (n, x) \<Rightarrow> x)
         else value)"

text \<open>
  The \<^verbatim>\<open>reflect.Map\<close> case: the probe key is a new value of the key type, and
  \<^verbatim>\<open>SetString\<close> on it panics unless that type has kind string.
\<close>

definition matchKey :: "folding \<Rightarrow> gtype \<Rightarrow> (mkey \<times> val) list \<Rightarrow> string \<Rightarrow> Options \<Rightarrow> val result" where
  "matchKey EqualFold kt es key opts =
     (if Kind_t kt \<noteq> KString then Panic
      else (let value = MapIndex es (KeyString key)
            in if CaseInsentitive opts \<and> Kind value = KInvalid
               then (case find (\<lambda>(k, x). EqualFold key (key_String k)) es of
                       None \<Rightarrow> Ok value
                     | Some (k, x) \<Rightarrow> Ok (MapIndex es (KeyString (key_String k))))
               else Ok value))"

fun matchByName :: "folding \<Rightarrow> val \<Rightarrow> string \<Rightarrow> Options \<Rightarrow> val result" where
  "matchByName EqualFold (VStruct n fs) key opts = Ok (matchField EqualFold fs key opts)"
| "matchByName EqualFold (VMap kt t es) key opts = matchKey EqualFold kt es key opts"
| "matchByName EqualFold v key opts = Ok VInvalid"

text \<open>What follows the switch: the not-found check, the indirections, the index.\<close>

definition applyIndex :: "val \<Rightarrow> int \<Rightarrow> val result" where
  "applyIndex value index =
     (if \<not> IsValid value then Err ErrKeyNotFound
      else (let value = getRealValue value
            in if index \<noteq> -1
               then (case Type value of
                       None \<Rightarrow> Panic
                     | Some t \<Rightarrow>
                         if Kind_t t \<noteq> KSlice then Err ErrInvalidIndexUsage
                         else (case value of
                                 VSlice et xs \<Rightarrow>
                                   (case Value_Index xs index of
                                      None \<Rightarrow> Panic
                                    | Some x \<Rightarrow> Ok (getRealValue x))
                               | _ \<Rightarrow> Panic))
               else Ok value))"

function getValueByName :: "folding \<Rightarrow> val \<Rightarrow> string \<Rightarrow> Options \<Rightarrow> val result" where
  "getValueByName EqualFold v key opts =
     (case parseIndex key of
        Err e \<Rightarrow> Err e
      | Panic \<Rightarrow> Panic
      | Ok (key', index) \<Rightarrow>
          if Kind v = KPtr \<or> Kind v = KInterface
          then getValueByName EqualFold (Elem v) key' opts
          else (case matchByName EqualFold v key' opts of
                  Err e \<Rightarrow> Err e
                | Panic \<Rightarrow> Panic
                | Ok value \<Rightarrow> applyIndex value index))"
  by pat_completeness auto
termination
proof (relation "measure (\<lambda>(EqualFold, v, key, opts). size v)")
  show "wf (measure (\<lambda>(EqualFold, v, key, opts). size v))"
    by simp
next
  fix EqualFold :: folding and v :: val and key :: string
    and opts :: "Options" and x1 :: "string \<times> int"
    and x y
  assume "Kind v = KPtr \<or> Kind v = KInterface"
  then show "((EqualFold, Elem v, x, opts), EqualFold, v, key, opts) \<in> measure (\<lambda>(EqualFold, v, key, opts). size v)"
    by (cases v) auto
qed

section \<open>The structural type resolver\<close>

fun lookupType :: "tenv \<Rightarrow> gtype \<Rightarrow> string list \<Rightarrow> gtype option" where
  "lookupType te ty [] = Some ty"
| "lookupType te (TSlice t) (p # ps) =
     (if hasIndex p then lookupType te t ps else lookupType te t (p # ps))"
| "lookupType te (TArray n t) (p # ps) =
     (if hasIndex p then lookupType te t ps else lookupType te t (p # ps))"
| "lookupType te (TMap k t) (p # ps) =
     (if hasIndex p then lookupType te t ps else lookupType te t (p # ps))"
| "lookupType te (TPtr t) (p # ps) = lookupType te t (p # ps)"
| "lookupType te TInterface (p # ps) = Some TInterface"
| "lookupType te (TStruct n) (p # ps) =
     (case map_of (te n) p of
        Some ft \<Rightarrow> lookupType te ft ps
      | None \<Rightarrow> None)"
| "lookupType te ty (p # ps) = None"

section \<open>The merger\<close>

definition removeZeroValues :: "val list \<Rightarrow> val list" where
  "removeZeroValues values = filter IsValid values"

definition isAggregable :: "val \<Rightarrow> bool" where
  "isAggregable v = (Kind v = KMap \<or> Kind v = KSlice)"

definition isMergeable :: "val \<Rightarrow> bool" where
  "isMergeable v = (Kind v = KMap \<or> Kind v = KSlice)"

text \<open>
  \<^verbatim>\<open>reflect.AppendSlice(s, x)\<close> on a slice \<open>s\<close> of element type \<open>t\<close> panics unless \<open>x\<close>
  is a slice of the same type.  \<^verbatim>\<open>reflect.Append(s, x)\<close> panics unless \<open>x\<close> is
  assignable to \<open>t\<close>: it has that type, or \<open>t\<close> is \<^verbatim>\<open>interface{}\<close> and \<open>x\<close> is boxed.
\<close>

fun AppendSlice :: "gtype \<Rightarrow> val list \<Rightarrow> val \<Rightarrow> val list option" where
  "AppendSlice t acc (VSlice t' xs) = (if t' = t then Some (acc @ xs) else None)"
| "AppendSlice t acc x = None"

definition Append :: "gtype \<Rightarrow> val list \<Rightarrow> val \<Rightarrow> val list option" where
  "Append t acc x =
     (if Type x = Some t then Some (acc @ [x])
      else if t = TInterface \<and> IsValid x then Some (acc @ [VIface x])
      else None)"

fun merge_loop :: "bool \<Rightarrow> gtype \<Rightarrow> val list \<Rightarrow> val list \<Rightarrow> val result" where
  "merge_loop mergeable t [] acc = Ok (VSlice t acc)"
| "merge_loop mergeable t (x # xs) acc =
     (if \<not> IsValid x then merge_loop mergeable t xs acc
      else if mergeable
      then (case AppendSlice t acc x of
              None \<Rightarrow> Panic
            | Some acc' \<Rightarrow> merge_loop mergeable t xs acc')
      else (case Append t acc x of
              None \<Rightarrow> Panic
            | Some acc' \<Rightarrow> merge_loop mergeable t xs acc'))"

definition mergeValue :: "val list \<Rightarrow> val result" where
  "mergeValue values0 =
     (let values = removeZeroValues values0;
          l = length values
      in if l = 0 then Ok VInvalid
         else (let sample = values ! 0;
                   mergeable = isMergeable sample
               in (case Type sample of
                     None \<Rightarrow> Panic
                   | Some t \<Rightarrow>
                       (case (if mergeable then Elem_t t else Some t) of
                          None \<Rightarrow> Panic
                        | Some t' \<Rightarrow> merge_loop mergeable t' values []))))"

section \<open>The driver and the aggregator\<close>

definition expandStringAsJSON :: "val \<Rightarrow> (mkey \<times> val) list option" where
  "expandStringAsJSON v =
     (case v of
        VString s j \<Rightarrow> (if s = [] then None else j)
      | _ \<Rightarrow> None)"

text \<open>
  The two statements \<^verbatim>\<open>if out := expandStringAsJSON(value); out != nil
  { value = reflect.ValueOf(out) }\<close> under the option.
\<close>

definition expand :: "Options \<Rightarrow> val \<Rightarrow> val" where
  "expand opts value =
     (if ExpandStringAsJSON opts
      then (case expandStringAsJSON value of
              None \<Rightarrow> value
            | Some out \<Rightarrow> VMap TString TInterface out)
      else value)"

text \<open>\<^verbatim>\<open>indexFunction\<close>: the elements that \<open>index(0), ..., index(l - 1)\<close> yield.\<close>

fun indexFunction :: "val \<Rightarrow> val list option" where
  "indexFunction (VSlice t xs) = Some xs"
| "indexFunction (VMap k t es) = Some (map snd es)"
| "indexFunction v = None"

text \<open>
  \<open>lookup_loop\<close> is the \<^verbatim>\<open>for i, part := range path\<close> loop of \<^verbatim>\<open>lookup\<close>, on the
  current value and the rest of the path; \<open>aggregate_loop\<close> is the loop of
  \<^verbatim>\<open>aggreateAggregableValue\<close> with the values collected so far.  Under
  \<^verbatim>\<open>ExpandStringAsJSON\<close> the loop of \<^verbatim>\<open>lookup\<close> prints \<^verbatim>\<open>value.Type()\<close>, which panics
  on the zero Value; what is printed is not modelled.
\<close>

function lookup :: "folding \<Rightarrow> tenv \<Rightarrow> val \<Rightarrow> string list \<Rightarrow> Options \<Rightarrow> val result"
  and lookup_loop :: "folding \<Rightarrow> tenv \<Rightarrow> val \<Rightarrow> string list \<Rightarrow> Options \<Rightarrow> val result"
  and aggreateAggregableValue :: "folding \<Rightarrow> tenv \<Rightarrow> val \<Rightarrow> string list \<Rightarrow> Options \<Rightarrow> val result"
  and aggregate_loop :: "folding \<Rightarrow> tenv \<Rightarrow> val list \<Rightarrow> string list \<Rightarrow> Options \<Rightarrow> val list \<Rightarrow> val result"
where
  "lookup EqualFold te i path opts =
     (if length path = 0 then Ok i
      else lookup_loop EqualFold te (expand opts i) path opts)"
| "lookup_loop EqualFold te value [] opts = Ok value"
| "lookup_loop EqualFold te value (part # rest) opts =
     (let parent = expand opts value
      in if ExpandStringAsJSON opts \<and> \<not> IsValid parent then Panic
         else (case getValueByName EqualFold parent part opts of
                 Ok value' \<Rightarrow> lookup_loop EqualFold te value' rest opts
               | Panic \<Rightarrow> Panic
               | Err e \<Rightarrow>
                   if \<not> isAggregable parent then Err e
                   else aggreateAggregableValue EqualFold te parent (part # rest) opts))"
| "aggreateAggregableValue EqualFold te v path opts =
     (case Len v of
        None \<Rightarrow> Panic
      | Some l \<Rightarrow>
          if l = 0
          then (case Type v of
                  None \<Rightarrow> Panic
                | Some vt \<Rightarrow>
                    (case lookupType te vt path of
                       None \<Rightarrow> Err ErrKeyNotFound
                     | Some ty \<Rightarrow> Ok (VSlice ty [])))
          else (case indexFunction v of
                  None \<Rightarrow> Panic
                | Some elems \<Rightarrow> aggregate_loop EqualFold te elems path opts []))"
| "aggregate_loop EqualFold te [] path opts values = mergeValue values"
| "aggregate_loop EqualFold te (x # xs) path opts values =
     (case lookup EqualFold te (Interface x) path opts of
        Err e \<Rightarrow> Err e
      | Panic \<Rightarrow> Panic
      | Ok value \<Rightarrow> aggregate_loop EqualFold te xs path opts (values @ [value]))"
  by pat_completeness auto
termination
proof (relation "inv_image (less_than <*lex*> less_than <*lex*> less_than)
    (\<lambda>x. case x of
       Inl (Inl (EqualFold, te, i, path, opts)) \<Rightarrow> (length path, size i, 3::nat)
     | Inl (Inr (EqualFold, te, value, path, opts)) \<Rightarrow> (length path, size value, 2)
     | Inr (Inl (EqualFold, te, v, path, opts)) \<Rightarrow> (length path, size v, 1)
     | Inr (Inr (EqualFold, te, xs, path, opts, values)) \<Rightarrow> (length path, size_list size xs, 0))",
    goal_cases)
  have size_expand: "size (expand opts v) \<le> size v" for opts v
    by (cases v) (auto simp: expand_def expandStringAsJSON_def split: option.splits)
  have size_Interface: "size (Interface x) \<le> size x" for x
    by (cases x) auto
  have size_snd: "size_list size (map snd es) \<le> size_list (size_prod (\<lambda>_. 0) size) es"
    for es :: "(mkey \<times> val) list"
    by (induction es) auto
  have size_indexFunction: "size_list size xs < size v" if "indexFunction v = Some xs" for v xs
  proof (cases v)
    case (VMap k t es)
    with that have "xs = map snd es" by simp
    with VMap size_snd [of es] show ?thesis by simp
  qed (use that in auto)
  {
    case 1
    show ?case by (intro wf_inv_image wf_lex_prod wf_less_than)
  next
    case (2 EqualFold te i path opts)
    then show ?case
      using size_expand [of opts i] by auto
  next
    case (3 EqualFold te "value" part rest opts x x2)
    then show ?case by simp
  next
    case (4 EqualFold te "value" part rest opts x x2)
    then show ?case
      using size_expand [of opts "value"] by auto
  next
    case (5 EqualFold te v path opts x2 x2a)
    then show ?case
      using size_indexFunction [of v x2a] by auto
  next
    case (6 EqualFold te x xs path opts "values")
    then show ?case
      using size_Interface [of x] by auto
  next
    case (7 EqualFold te x xs path opts "values" x1)
    then show ?case by simp
  }
qed

text \<open>\<^verbatim>\<open>Value.Interface\<close> panics on the zero Value.\<close>

definition Lookup :: "folding \<Rightarrow> tenv \<Rightarrow> val \<Rightarrow> string \<Rightarrow> Options \<Rightarrow> val result" where
  "Lookup EqualFold te i path opts =
     (case lookup EqualFold te i (Split path SplitToken) opts of
        Ok v \<Rightarrow> (if IsValid v then Ok v else Panic)
      | Err e \<Rightarrow> Err e
      | Panic \<Rightarrow> Panic)"

declare getValueByName.simps [simp del]
declare lookup.simps [simp del]
declare aggreateAggregableValue.simps [simp del]

section \<open>Fixtures of the test suite\<close>

text \<open>
  \<^verbatim>\<open>MyStruct\<close>, \<^verbatim>\<open>mapFixture\<close> and \<^verbatim>\<open>structFixture\<close> of the tests (the interface
  field and the JSON text are set on the outer value only), and the option values the
  tests use.
\<close>

definition fixtureTypes :: tenv where
  "fixtureTypes n =
     (if n = ''MyStruct''
      then [(''String'', TString),
            (''Map'', TMap TString TInt),
            (''Nested'', TPtr (TStruct ''MyStruct'')),
            (''StructSlice'', TSlice (TPtr (TStruct ''MyStruct''))),
            (''Interface'', TInterface),
            (''JSONString'', TString)]
      else if n = ''Holder'' then [(''P'', TPtr TInt), (''X'', TInt)]
      else [])"

definition mapFixture :: val where
  "mapFixture = VMap TString TInt [(KeyString ''foo'', VInt 42)]"

definition MyStruct :: "string \<Rightarrow> val \<Rightarrow> val list \<Rightarrow> val" where
  "MyStruct s iface structSlice =
     VStruct ''MyStruct''
       [(''String'', VString s None),
        (''Map'', mapFixture),
        (''Nested'', VPtr (TStruct ''MyStruct'') VInvalid),
        (''StructSlice'',
           VSlice (TPtr (TStruct ''MyStruct''))
             (map (VPtr (TStruct ''MyStruct'')) structSlice)),
        (''Interface'', VIface iface),
        (''JSONString'', VString [] None)]"

definition structFixture :: val where
  "structFixture =
     MyStruct ''foo'' (VString ''foo'' None)
       [MyStruct ''foo'' VInvalid
          [MyStruct ''bar'' VInvalid [], MyStruct ''foo'' VInvalid []],
        MyStruct ''qux'' VInvalid
          [MyStruct ''qux'' VInvalid [], MyStruct ''baz'' VInvalid []]]"

text \<open>A value of \<^verbatim>\<open>struct { P *int; X int }\<close> whose pointer field is nil.\<close>

definition holder :: val where
  "holder = VStruct ''Holder'' [(''P'', VPtr TInt VInvalid), (''X'', VInt 7)]"

definition noOptions :: Options where
  "noOptions = \<lparr>ExpandStringAsJSON = False, CaseInsentitive = False\<rparr>"

definition caseInsensitive :: Options where
  "caseInsensitive = \<lparr>ExpandStringAsJSON = False, CaseInsentitive = True\<rparr>"

text \<open>A value of \<^verbatim>\<open>struct { X []int }\<close>.\<close>

definition holderSlice :: val where
  "holderSlice = VStruct ''HolderSlice'' [(''X'', VSlice TInt [VInt 1])]"

text \<open>Two values of \<^verbatim>\<open>struct { X []int }\<close> in a slice, the field of a struct.\<close>

definition holderSlices :: val where
  "holderSlices =
     VStruct ''Holders''
       [(''Items'', VSlice (TStruct ''HolderSlice'') [holderSlice, holderSlice])]"

text \<open>\<^verbatim>\<open>caseFixtureMap\<close> of the tests, in one iteration order.\<close>

definition caseFixtureMap :: "(mkey \<times> val) list" where
  "caseFixtureMap =
     [(KeyString ''Foo'', VInt 0), (KeyString ''TestKey'', VInt 1),
      (KeyString ''Testkey'', VInt 2), (KeyString ''testKey'', VInt 3)]"

text \<open>
  A struct whose field \<^verbatim>\<open>JSONString\<close> holds the text of a JSON object, with what
  \<^verbatim>\<open>json.Unmarshal\<close> decodes from it, and the options that expand it.
\<close>

definition jsonFixture :: val where
  \<open>jsonFixture =
     VStruct ''JSONHolder''
       [(''JSONString'',
           VString ''{"String":"Abc"}''
             (Some [(KeyString ''String'', VIface (VString ''Abc'' None))]))]\<close>

definition expandJSON :: Options where
  "expandJSON = \<lparr>ExpandStringAsJSON = True, CaseInsentitive = False\<rparr>"

section \<open>Notions the statements use\<close>

text \<open>The elements of a slice.\<close>

fun sliceElems :: "val \<Rightarrow> val list" where
  "sliceElems (VSlice t xs) = xs"
| "sliceElems v = []"

text \<open>
  A segment that parses with the sentinel \<open>-1\<close> as its index, such as \<open>name[-1]\<close>,
  and the name it leaves; every other segment is left as it is.
\<close>

definition dropSentinel :: "string \<Rightarrow> string" where
  "dropSentinel s =
     (case parseIndex s of
        Ok (name, i) \<Rightarrow> (if i = - 1 then name else s)
      | _ \<Rightarrow> s)"

text \<open>
  No slice and no map inside the value is empty (the maps that strings expand to
  included).
\<close>

fun noEmptyCollection :: "val \<Rightarrow> bool" where
  "noEmptyCollection (VSlice t xs) = (xs \<noteq> [] \<and> (\<forall>x \<in> set xs. noEmptyCollection x))"
| "noEmptyCollection (VMap k t es) = (es \<noteq> [] \<and> (\<forall>x \<in> set (map snd es). noEmptyCollection x))"
| "noEmptyCollection (VArray t xs) = (\<forall>x \<in> set xs. noEmptyCollection x)"
| "noEmptyCollection (VString s j) =
     (case j of
        None \<Rightarrow> True
      | Some es \<Rightarrow> es \<noteq> [] \<and> (\<forall>x \<in> set (map snd es). noEmptyCollection x))"
| "noEmptyCollection (VPtr t v) = noEmptyCollection v"
| "noEmptyCollection (VIface v) = noEmptyCollection v"
| "noEmptyCollection (VStruct n fs) = (\<forall>x \<in> set (map snd fs). noEmptyCollection x)"
| "noEmptyCollection v = True"

section \<open>The path parser: what a segment parses to\<close>

lemma Index_notin: "c \<notin> set s \<Longrightarrow> Index s c = - 1"
  by (induction s) (auto simp: Let_def)

lemma Index_first: "c \<notin> set pre \<Longrightarrow> Index (pre @ c # rest) c = int (length pre)"
  by (induction pre) (auto simp: Let_def)

lemma Index_absent_iff: "Index s c = - 1 \<longleftrightarrow> c \<notin> set s"
proof
  assume absent: "Index s c = - 1"
  show "c \<notin> set s"
  proof
    assume "c \<in> set s"
    then obtain pre rest where "s = pre @ c # rest" "c \<notin> set pre"
      by (meson split_list_first)
    with absent show False
      by (simp add: Index_first)
  qed
qed (rule Index_notin)

lemma substr_middle:
  "substr (pre @ a # mid @ b # post) (int (length pre) + 1)
     (int (length pre) + 1 + int (length mid)) = Some mid"
proof -
  have "nat (int (length pre) + 1) = Suc (length pre)" by simp
  then show ?thesis by (simp add: substr_def)
qed

lemma substr_prefix: "substr (pre @ rest) 0 (int (length pre)) = Some pre"
  by (simp add: substr_def)

lemma brackets_differ: "IndexOpenChar \<noteq> IndexCloseChar"
  by (simp add: IndexOpenChar_def IndexCloseChar_def)

text \<open>
  A piece \<open>pre[mid]post\<close> whose first \<open>[\<close> comes before its first \<open>]\<close>: the index is what
  \<^verbatim>\<open>strconv.Atoi\<close> makes of \<open>mid\<close>, and the name is \<open>pre\<close>.
\<close>

lemma parseIndex_bracketed:
  assumes "IndexOpenChar \<notin> set pre" "IndexCloseChar \<notin> set pre" "IndexCloseChar \<notin> set mid"
  shows "parseIndex (pre @ [IndexOpenChar] @ mid @ [IndexCloseChar] @ post) =
           (case Atoi mid of
              None \<Rightarrow> Err ErrMalformedIndex
            | Some n \<Rightarrow> Ok (pre, n))"
proof -
  define s where "s = pre @ IndexOpenChar # mid @ IndexCloseChar # post"
  from assms have start: "Index s IndexOpenChar = int (length pre)"
    by (simp add: s_def Index_first)
  from assms brackets_differ have "IndexCloseChar \<notin> set (pre @ IndexOpenChar # mid)"
    by auto
  then have "Index ((pre @ IndexOpenChar # mid) @ IndexCloseChar # post) IndexCloseChar
      = int (length (pre @ IndexOpenChar # mid))"
    by (rule Index_first)
  then have stop: "Index s IndexCloseChar = int (length pre) + 1 + int (length mid)"
    by (simp add: s_def)
  have m: "substr s (int (length pre) + 1) (int (length pre) + 1 + int (length mid)) = Some mid"
    unfolding s_def by (rule substr_middle)
  have n: "substr s 0 (int (length pre)) = Some pre"
    unfolding s_def by (rule substr_prefix)
  have "parseIndex s =
      (case Atoi mid of None \<Rightarrow> Err ErrMalformedIndex | Some n \<Rightarrow> Ok (pre, n))"
    unfolding parseIndex_def start stop Let_def
    by (simp add: m n split: option.splits)
  then show ?thesis
    by (simp add: s_def)
qed

lemma parseIndex_plain:
  "IndexOpenChar \<notin> set s \<Longrightarrow> IndexCloseChar \<notin> set s \<Longrightarrow> parseIndex s = Ok (s, - 1)"
  by (simp add: parseIndex_def Index_notin)

text \<open>
  When the first \<open>]\<close> comes before the first \<open>[\<close>, the slice expression
  \<^verbatim>\<open>s[start+1 : end]\<close> panics.
\<close>

lemma parseIndex_close_before_open: "parseIndex ''a]b['' = Panic"
  by (simp add: parseIndex_def IndexOpenChar_def IndexCloseChar_def substr_def)

text \<open>
  C5 (as amended).  A piece with neither bracket is the name, with the sentinel \<open>-1\<close> for
  "no index".  A piece with exactly one of the two brackets is a malformed index.  A piece
  \<open>pre[mid]post\<close> whose first \<open>[\<close> comes before its first \<open>]\<close> is a malformed index
  when \<^verbatim>\<open>strconv.Atoi\<close> rejects \<open>mid\<close>; otherwise its name is \<open>pre\<close>, the part before
  the first \<open>[\<close>, and its index is the integer \<open>mid\<close> denotes, of either sign.
\<close>

theorem parseIndex_contract:
  "(IndexOpenChar \<notin> set s \<and> IndexCloseChar \<notin> set s \<longrightarrow> parseIndex s = Ok (s, - 1)) \<and>
   ((IndexOpenChar \<in> set s) \<noteq> (IndexCloseChar \<in> set s) \<longrightarrow>
      parseIndex s = Err ErrMalformedIndex) \<and>
   (\<forall>pre mid post.
      s = pre @ [IndexOpenChar] @ mid @ [IndexCloseChar] @ post \<and>
      IndexOpenChar \<notin> set pre \<and> IndexCloseChar \<notin> set pre \<and> IndexCloseChar \<notin> set mid \<longrightarrow>
      parseIndex s =
        (case Atoi mid of
           None \<Rightarrow> Err ErrMalformedIndex
         | Some n \<Rightarrow> Ok (pre, n)))"
proof (intro conjI impI allI)
  assume "IndexOpenChar \<notin> set s \<and> IndexCloseChar \<notin> set s"
  then show "parseIndex s = Ok (s, - 1)"
    by (simp add: parseIndex_plain)
next
  assume "(IndexOpenChar \<in> set s) \<noteq> (IndexCloseChar \<in> set s)"
  then show "parseIndex s = Err ErrMalformedIndex"
    by (auto simp: parseIndex_def Let_def Index_absent_iff)
next
  fix pre mid post
  assume "s = pre @ [IndexOpenChar] @ mid @ [IndexCloseChar] @ post \<and>
      IndexOpenChar \<notin> set pre \<and> IndexCloseChar \<notin> set pre \<and> IndexCloseChar \<notin> set mid"
  then show "parseIndex s =
      (case Atoi mid of None \<Rightarrow> Err ErrMalformedIndex | Some n \<Rightarrow> Ok (pre, n))"
    using parseIndex_bracketed [of pre mid post] by simp
qed

theorem parseIndex_contract_witness:
  "parseIndex ''foo'' = Ok (''foo'', - 1) \<and>
   parseIndex ''foo['' = Err ErrMalformedIndex \<and>
   parseIndex ''foo]'' = Err ErrMalformedIndex \<and>
   parseIndex ''foo[]'' = Err ErrMalformedIndex \<and>
   parseIndex ''foo[42]'' = Ok (''foo'', 42)"
proof -
  have a: "Atoi '''' = None" "Atoi ''42'' = Some 42"
    by (simp_all add: Atoi_def is_digit_def)
  have "parseIndex ''foo'' = Ok (''foo'', - 1)"
    using parseIndex_contract [of "''foo''"]
    by (simp add: IndexOpenChar_def IndexCloseChar_def)
  moreover have "parseIndex ''foo['' = Err ErrMalformedIndex"
    using parseIndex_contract [of "''foo[''"]
    by (simp add: IndexOpenChar_def IndexCloseChar_def)
  moreover have "parseIndex ''foo]'' = Err ErrMalformedIndex"
    using parseIndex_contract [of "''foo]''"]
    by (simp add: IndexOpenChar_def IndexCloseChar_def)
  moreover have "parseIndex ''foo[]'' = Err ErrMalformedIndex"
    using parseIndex_contract [of "''foo[]''", THEN conjunct2, THEN conjunct2,
        rule_format, of "''foo''" "''''" "''''"] a
    by (simp add: IndexOpenChar_def IndexCloseChar_def)
  moreover have "parseIndex ''foo[42]'' = Ok (''foo'', 42)"
    using parseIndex_contract [of "''foo[42]''", THEN conjunct2, THEN conjunct2,
        rule_format, of "''foo''" "''42''" "''''"] a
    by (simp add: IndexOpenChar_def IndexCloseChar_def)
  ultimately show ?thesis by simp
qed

text \<open>
  C5 as stated fails twice.  The piece \<open>foo[-2]\<close> parses, with the negative index \<open>-2\<close>,
  although \<open>-2\<close> is no non-negative integer; and the name of \<open>foo[1]bar\<close> is \<open>foo\<close>, not
  the piece without its bracketed part, \<open>foobar\<close>.
\<close>

theorem parseIndex_counterexample:
  "parseIndex ''foo[-2]'' = Ok (''foo'', - 2) \<and> parseIndex ''foo[1]bar'' = Ok (''foo'', 1)"
  by (simp add: parseIndex_def IndexOpenChar_def IndexCloseChar_def substr_def Atoi_def
      is_digit_def)

section \<open>Properties of the merger\<close>

lemma Type_slice: "Type v = Some (TSlice t) \<Longrightarrow> \<exists>xs. v = VSlice t xs"
  by (cases v) auto

lemma Type_valid: "Type v = Some t \<Longrightarrow> IsValid v"
  by (cases v) (auto simp: IsValid_def)

lemma merge_loop_slices:
  "\<forall>v \<in> set vs. Type v = Some (TSlice t) \<Longrightarrow>
   merge_loop True t vs acc = Ok (VSlice t (acc @ concat (map sliceElems vs)))"
proof (induction vs arbitrary: acc)
  case Nil
  then show ?case by simp
next
  case (Cons v vs)
  then obtain xs where v: "v = VSlice t xs"
    using Type_slice [of v t] by auto
  from Cons show ?case
    by (simp add: v IsValid_def)
qed

lemma merge_loop_single:
  "\<forall>v \<in> set vs. Type v = Some t \<Longrightarrow> merge_loop False t vs acc = Ok (VSlice t (acc @ vs))"
proof (induction vs arbitrary: acc)
  case Nil
  then show ?case by simp
next
  case (Cons v vs)
  then have "IsValid v" "Type v = Some t"
    using Type_valid [of v t] by auto
  with Cons show ?case
    by (simp add: Append_def)
qed

text \<open>\<^verbatim>\<open>TestAggregableLookup_StructNested\<close>.\<close>

lemma fixture_nested:
  "Lookup asciiEqualFold fixtureTypes structFixture ''StructSlice.StructSlice.String'' noOptions =
     Ok (VSlice TString
          [VString ''bar'' None, VString ''foo'' None, VString ''qux'' None,
           VString ''baz'' None])"
  by code_simp

text \<open>
  C1 (as amended).  Let \<open>sample\<close> be the first valid entry and \<open>rest\<close> the valid entries
  after it, all of the type of \<open>sample\<close>.  If \<open>sample\<close> is a slice, the merged result is
  one slice, of the element type, holding the elements of every valid entry in order: one
  level is flattened.  If \<open>sample\<close> is neither a slice nor a map, the merged result is
  the slice of the valid entries.  On the fixture of the tests,
  \<^verbatim>\<open>StructSlice.StructSlice.String\<close> over two elements of two sub-elements each is one
  flat slice of four strings.
\<close>

theorem mergeValue_flatten:
  assumes "removeZeroValues values = sample # rest"
  shows "(Kind sample = KSlice \<and> (\<forall>v \<in> set rest. Type v = Type sample) \<longrightarrow>
            (\<exists>t. Type sample = Some (TSlice t) \<and>
                 mergeValue values = Ok (VSlice t (concat (map sliceElems (sample # rest)))))) \<and>
         (\<not> isMergeable sample \<and> (\<forall>v \<in> set rest. Type v = Type sample) \<longrightarrow>
            (\<exists>t. Type sample = Some t \<and> mergeValue values = Ok (VSlice t (sample # rest)))) \<and>
         Lookup asciiEqualFold fixtureTypes structFixture ''StructSlice.StructSlice.String'' noOptions =
           Ok (VSlice TString
                [VString ''bar'' None, VString ''foo'' None, VString ''qux'' None,
                 VString ''baz'' None])"
proof (intro conjI impI)
  assume h: "Kind sample = KSlice \<and> (\<forall>v \<in> set rest. Type v = Type sample)"
  then obtain t xs where s: "sample = VSlice t xs"
    by (cases sample) auto
  with h have all: "\<forall>v \<in> set (sample # rest). Type v = Some (TSlice t)"
    by simp
  have "mergeValue values = merge_loop True t (sample # rest) []"
    using assms s by (simp add: mergeValue_def Let_def isMergeable_def)
  with merge_loop_slices [OF all, of "[]"] s
  show "\<exists>t. Type sample = Some (TSlice t) \<and>
      mergeValue values = Ok (VSlice t (concat (map sliceElems (sample # rest))))"
    by simp
next
  assume h: "\<not> isMergeable sample \<and> (\<forall>v \<in> set rest. Type v = Type sample)"
  from assms have "sample \<in> set (filter IsValid values)"
    by (simp add: removeZeroValues_def)
  then have "IsValid sample" by simp
  then obtain t where t: "Type sample = Some t"
    by (cases sample) (auto simp: IsValid_def)
  with h have all: "\<forall>v \<in> set (sample # rest). Type v = Some t"
    by simp
  have "mergeValue values = merge_loop False t (sample # rest) []"
    using assms t h by (simp add: mergeValue_def Let_def)
  with merge_loop_single [OF all, of "[]"] t
  show "\<exists>t. Type sample = Some t \<and> mergeValue values = Ok (VSlice t (sample # rest))"
    by simp
next
  show "Lookup asciiEqualFold fixtureTypes structFixture ''StructSlice.StructSlice.String'' noOptions =
      Ok (VSlice TString
           [VString ''bar'' None, VString ''foo'' None, VString ''qux'' None,
            VString ''baz'' None])"
    by (rule fixture_nested)
qed

theorem mergeValue_flatten_witness:
  "mergeValue [VSlice TString [VString ''foo'' None, VString ''bar'' None],
               VSlice TString [VString ''qux'' None, VString ''baz'' None]] =
     Ok (VSlice TString [VString ''foo'' None, VString ''bar'' None,
                         VString ''qux'' None, VString ''baz'' None]) \<and>
   mergeValue [VInvalid, VString ''foo'' None] = Ok (VSlice TString [VString ''foo'' None])"
proof -
  have "mergeValue [VSlice TString [VString ''foo'' None, VString ''bar'' None],
               VSlice TString [VString ''qux'' None, VString ''baz'' None]] =
     Ok (VSlice TString [VString ''foo'' None, VString ''bar'' None,
                         VString ''qux'' None, VString ''baz'' None])"
    using mergeValue_flatten [of
        "[VSlice TString [VString ''foo'' None, VString ''bar'' None],
          VSlice TString [VString ''qux'' None, VString ''baz'' None]]"
        "VSlice TString [VString ''foo'' None, VString ''bar'' None]"
        "[VSlice TString [VString ''qux'' None, VString ''baz'' None]]"]
    by (simp add: removeZeroValues_def IsValid_def)
  moreover have "mergeValue [VInvalid, VString ''foo'' None] = Ok (VSlice TString [VString ''foo'' None])"
    using mergeValue_flatten [of "[VInvalid, VString ''foo'' None]" "VString ''foo'' None" "[]"]
    by (simp add: removeZeroValues_def IsValid_def isMergeable_def)
  ultimately show ?thesis by simp
qed

text \<open>
  C1 as stated fails: when the first valid entry is a map, \<^verbatim>\<open>reflect.AppendSlice\<close>
  panics on it, and when the entries differ in type, \<^verbatim>\<open>reflect.Append\<close> panics on the
  first entry that is not of the type of the sample.
\<close>

theorem mergeValue_counterexample:
  "mergeValue [VMap TString TInt [(KeyString ''foo'', VInt 42)]] = Panic \<and>
   mergeValue [VString ''a'' None, VInt 1] = Panic"
  by (simp add: mergeValue_def removeZeroValues_def IsValid_def isMergeable_def Append_def)

section \<open>Properties of the aggregator\<close>



text \<open>\<^verbatim>\<open>TestAggregableLookup_EmptySlice\<close> and \<^verbatim>\<open>TestAggregableLookup_EmptyMap\<close>.\<close>

lemma fixture_empty_slice:
  "Lookup asciiEqualFold fixtureTypes (VSlice (TSlice (TStruct ''MyStruct'')) [VSlice (TStruct ''MyStruct'') []])
     ''String'' noOptions = Ok (VSlice TString [])"
  by code_simp

lemma fixture_empty_map:
  "Lookup asciiEqualFold fixtureTypes (VMap TString (TPtr (TStruct ''MyStruct'')) []) ''Map'' noOptions
     = Ok (VSlice (TMap TString TInt) [])"
  by code_simp

text \<open>
  On a slice no segment resolves, so \<^verbatim>\<open>Lookup\<close> on an empty slice is the aggregation
  over it, whether the first segment is well formed or not.
\<close>

lemma getValueByName_slice_fails:
  "parseIndex seg \<noteq> Panic \<Longrightarrow> \<exists>e. getValueByName EqualFold (VSlice t xs) seg opts = Err e"
  by (cases "parseIndex seg")
     (auto simp: getValueByName.simps applyIndex_def IsValid_def)

lemma Lookup_empty_slice:
  assumes "Split path SplitToken = seg # rest" "parseIndex seg \<noteq> Panic"
  shows "Lookup EqualFold te (VSlice t []) path opts =
           (case lookupType te (TSlice t) (seg # rest) of
              None \<Rightarrow> Err ErrKeyNotFound
            | Some ty \<Rightarrow> Ok (VSlice ty []))"
proof -
  from assms(2) obtain e where e: "getValueByName EqualFold (VSlice t []) seg opts = Err e"
    using getValueByName_slice_fails by blast
  have x: "expand opts (VSlice t []) = VSlice t []"
    by (simp add: expand_def expandStringAsJSON_def)
  have "lookup EqualFold te (VSlice t []) (seg # rest) opts
      = aggreateAggregableValue EqualFold te (VSlice t []) (seg # rest) opts"
    using e x by (simp add: lookup.simps IsValid_def isAggregable_def)
  also have "\<dots> = (case lookupType te (TSlice t) (seg # rest) of
              None \<Rightarrow> Err ErrKeyNotFound
            | Some ty \<Rightarrow> Ok (VSlice ty []))"
    by (simp add: aggreateAggregableValue.simps)
  finally show ?thesis
    using assms(1) by (simp add: Lookup_def IsValid_def split: option.splits)
qed

text \<open>
  The loop of the aggregator: it stops at the first element whose lookup does not
  succeed, and merges the collected values when every lookup succeeds.
\<close>

lemma aggregate_loop_first_failure:
  "\<forall>y \<in> set pre. \<exists>w. lookup EqualFold te (Interface y) path opts = Ok w \<Longrightarrow>
   lookup EqualFold te (Interface x) path opts = Err e \<Longrightarrow>
   aggregate_loop EqualFold te (pre @ x # post) path opts values = Err e"
  by (induction pre arbitrary: "values") auto

lemma aggregate_loop_no_partial:
  "x \<in> set elems \<Longrightarrow> \<forall>w. lookup EqualFold te (Interface x) path opts \<noteq> Ok w \<Longrightarrow>
   aggregate_loop EqualFold te elems path opts values \<noteq> Ok w'"
  by (induction elems arbitrary: "values") (auto split: result.splits)

lemma aggregate_loop_all_ok:
  "\<forall>y \<in> set elems. lookup EqualFold te (Interface y) path opts = Ok (f y) \<Longrightarrow>
   aggregate_loop EqualFold te elems path opts values = mergeValue (values @ map f elems)"
  by (induction elems arbitrary: "values") auto

text \<open>
  C3.  Over a non-empty slice or map with elements \<open>elems\<close>: when the lookup on an
  element fails with an error \<open>e\<close> and the lookups on the elements before it succeed,
  the aggregation returns exactly \<open>e\<close>; and whenever the lookup on some element does not
  succeed, the aggregation returns no value at all, so no partial result.
\<close>

theorem aggregate_fail_fast:
  assumes "isAggregable v" "Len v \<noteq> Some 0" "indexFunction v = Some elems"
  shows "(\<forall>pre x post e.
            elems = pre @ x # post \<and>
            (\<forall>y \<in> set pre. \<exists>w. lookup EqualFold te (Interface y) path opts = Ok w) \<and>
            lookup EqualFold te (Interface x) path opts = Err e \<longrightarrow>
            aggreateAggregableValue EqualFold te v path opts = Err e) \<and>
         ((\<exists>x \<in> set elems. \<forall>w. lookup EqualFold te (Interface x) path opts \<noteq> Ok w) \<longrightarrow>
            (\<forall>w. aggreateAggregableValue EqualFold te v path opts \<noteq> Ok w))"
proof -
  from assms obtain l where "Len v = Some l" "l \<noteq> 0"
    by (cases v) (auto simp: isAggregable_def)
  with assms have unfold: "aggreateAggregableValue EqualFold te v path opts = aggregate_loop EqualFold te elems path opts []"
    by (simp add: aggreateAggregableValue.simps)
  show ?thesis
    unfolding unfold
    using aggregate_loop_first_failure [of _ EqualFold te path opts _ _ _ "[]"]
      aggregate_loop_no_partial [of _ elems EqualFold te path opts "[]"]
    by blast
qed

theorem aggregate_fail_fast_witness:
  "aggreateAggregableValue asciiEqualFold fixtureTypes (VSlice TInterface [VIface holderSlice, VIface holder])
     [''X[0]''] noOptions = Err ErrInvalidIndexUsage"
proof -
  have ok: "lookup asciiEqualFold fixtureTypes (Interface (VIface holderSlice)) [''X[0]''] noOptions = Ok (VInt 1)"
    by code_simp
  have err: "lookup asciiEqualFold fixtureTypes (Interface (VIface holder)) [''X[0]''] noOptions
      = Err ErrInvalidIndexUsage"
    by code_simp
  have a: "isAggregable (VSlice TInterface [VIface holderSlice, VIface holder])"
    by (simp add: isAggregable_def)
  have l: "Len (VSlice TInterface [VIface holderSlice, VIface holder]) \<noteq> Some 0"
    by simp
  have i: "indexFunction (VSlice TInterface [VIface holderSlice, VIface holder])
      = Some [VIface holderSlice, VIface holder]"
    by simp
  have "[VIface holderSlice, VIface holder] = [VIface holderSlice] @ VIface holder # [] \<and>
      (\<forall>y \<in> set [VIface holderSlice].
         \<exists>w. lookup asciiEqualFold fixtureTypes (Interface y) [''X[0]''] noOptions = Ok w) \<and>
      lookup asciiEqualFold fixtureTypes (Interface (VIface holder)) [''X[0]''] noOptions
        = Err ErrInvalidIndexUsage"
    using ok err by simp
  then show ?thesis
    by (rule aggregate_fail_fast [OF a l i, THEN conjunct1, rule_format])
qed

section \<open>Where the public operation panics\<close>

text \<open>
  When the walk ends with the zero Value and no error, \<^verbatim>\<open>Lookup\<close> panics.
\<close>

lemma Lookup_zero_Value:
  "lookup EqualFold te v (Split path SplitToken) opts = Ok VInvalid \<Longrightarrow> Lookup EqualFold te v path opts = Panic"
  by (simp add: Lookup_def IsValid_def)

text \<open>
  A string that holds a JSON object is expanded under \<^verbatim>\<open>ExpandStringAsJSON\<close> only.
\<close>

lemma fixture_json:
  "Lookup asciiEqualFold fixtureTypes jsonFixture ''JSONString.String'' expandJSON = Ok (VString ''Abc'' None) \<and>
   Lookup asciiEqualFold fixtureTypes jsonFixture ''JSONString.String'' noOptions = Err ErrKeyNotFound"
  by code_simp

text \<open>
  C4 (the code at the failing input).  \<^verbatim>\<open>Lookup([]Holder{{P: nil, X: 7}}, "P", Options{})\<close>:
  the only collected value is the zero Value that stripping the nil pointer leaves, the
  merger drops it and returns the zero Value with no error, and \<^verbatim>\<open>Lookup\<close> calls
  \<^verbatim>\<open>Interface\<close> on it, which panics; no \<^verbatim>\<open>ErrKeyNotFound\<close> is returned.
\<close>

theorem Lookup_absent_merge_panics:
  "mergeValue [VInvalid] = Ok VInvalid \<and>
   lookup asciiEqualFold fixtureTypes (VSlice (TStruct ''Holder'') [holder]) [''P''] noOptions = Ok VInvalid \<and>
   Lookup asciiEqualFold fixtureTypes (VSlice (TStruct ''Holder'') [holder]) ''P'' noOptions = Panic"
  by code_simp

text \<open>An index at or beyond the length of the slice makes \<^verbatim>\<open>Value.Index\<close> panic.\<close>

lemma applyIndex_out_of_range:
  "IsValid m \<Longrightarrow> getRealValue m = VSlice t xs \<Longrightarrow> int (length xs) \<le> i \<Longrightarrow>
   applyIndex m i = Panic"
  by (auto simp: applyIndex_def Value_Index_def)

section \<open>Properties of the value resolver\<close>

lemma getRealValue_invalid: "IsValid (getRealValue m) \<Longrightarrow> IsValid m"
  by (cases m) (auto simp: IsValid_def)

text \<open>
  C7 (as amended).  A segment that carries an index \<open>i\<close> other than the sentinel \<open>-1\<close>,
  resolved on a value \<open>v\<close> that is not itself a pointer or an interface, with a matched
  value \<open>m\<close> that is not nil after the indirections are stripped: when the stripped
  value is not a slice the resolution fails with \<^verbatim>\<open>ErrInvalidIndexUsage\<close>, and when it is
  a slice with \<open>0 \<le> i < len\<close> the result is the element at \<open>i\<close>, stripped of its
  indirections.
\<close>

theorem getValueByName_index:
  assumes "parseIndex seg = Ok (name, i)" "i \<noteq> - 1"
    and "Kind v \<noteq> KPtr" "Kind v \<noteq> KInterface"
    and "matchByName EqualFold v name opts = Ok m" "IsValid (getRealValue m)"
  shows "(Kind (getRealValue m) \<noteq> KSlice \<longrightarrow>
            getValueByName EqualFold v seg opts = Err ErrInvalidIndexUsage) \<and>
         (\<forall>t xs. getRealValue m = VSlice t xs \<and> 0 \<le> i \<and> i < int (length xs) \<longrightarrow>
            getValueByName EqualFold v seg opts = Ok (getRealValue (xs ! nat i)))"
proof -
  from assms have unfold: "getValueByName EqualFold v seg opts = applyIndex m i"
    by (simp add: getValueByName.simps)
  from assms have valid: "IsValid m"
    by (simp add: getRealValue_invalid)
  from assms obtain ty where ty: "Type (getRealValue m) = Some ty"
    by (cases "getRealValue m") (auto simp: IsValid_def)
  have kind: "Kind_t ty = Kind (getRealValue m)"
    using ty by (cases "getRealValue m") auto
  show ?thesis
    unfolding unfold
    using assms(2) valid ty kind
    by (auto simp: applyIndex_def Value_Index_def)
qed

theorem getValueByName_index_witness:
  "getValueByName asciiEqualFold holder ''X[0]'' noOptions = Err ErrInvalidIndexUsage \<and>
   getValueByName asciiEqualFold holderSlice ''X[0]'' noOptions = Ok (VInt 1)"
proof -
  have p: "parseIndex ''X[0]'' = Ok (''X'', 0)"
    by (simp add: parseIndex_def IndexOpenChar_def IndexCloseChar_def substr_def Atoi_def
        is_digit_def)
  have m1: "matchByName asciiEqualFold holder ''X'' noOptions = Ok (VInt 7)"
    by (simp add: holder_def matchField_def FieldByName_def noOptions_def)
  have m2: "matchByName asciiEqualFold holderSlice ''X'' noOptions = Ok (VSlice TInt [VInt 1])"
    by (simp add: holderSlice_def matchField_def FieldByName_def noOptions_def)
  have "getValueByName asciiEqualFold holder ''X[0]'' noOptions = Err ErrInvalidIndexUsage"
    using getValueByName_index [OF p _ _ _ m1]
    by (simp add: holder_def IsValid_def)
  moreover have "getValueByName asciiEqualFold holderSlice ''X[0]'' noOptions = Ok (VInt 1)"
    using getValueByName_index [OF p _ _ _ m2]
    by (simp add: holderSlice_def IsValid_def)
  ultimately show ?thesis by simp
qed

text \<open>
  \<^verbatim>\<open>TestAggregableLookupString_Complex\<close>: the elements of \<^verbatim>\<open>StructSlice\<close> are pointers,
  so the index of \<^verbatim>\<open>StructSlice[0]\<close> in the second segment is dropped and all four
  strings are returned.
\<close>

lemma fixture_complex:
  "Lookup asciiEqualFold fixtureTypes structFixture ''StructSlice.StructSlice[0].String'' noOptions =
     Ok (VSlice TString
          [VString ''bar'' None, VString ''foo'' None, VString ''qux'' None,
           VString ''baz'' None])"
  by code_simp

text \<open>
  C7 as stated fails: resolved on a pointer (or an interface), the segment is passed on
  to the pointee as the bare name, so the index is dropped; \<^verbatim>\<open>X[0]\<close> on a pointer
  to a struct whose field \<^verbatim>\<open>X\<close> is an \<^verbatim>\<open>int\<close> returns that integer and no
  \<^verbatim>\<open>ErrInvalidIndexUsage\<close>.
\<close>

theorem getValueByName_index_counterexample:
  "getValueByName asciiEqualFold (VPtr (TStruct ''Holder'') holder) ''X[0]'' noOptions = Ok (VInt 7) \<and>
   Lookup asciiEqualFold fixtureTypes (VPtr (TStruct ''Holder'') holder) ''X[0]'' noOptions = Ok (VInt 7)"
  by code_simp

text \<open>
  C10 (as amended).  On a map whose key type is not of kind string, a segment that parses
  makes the resolution panic (\<^verbatim>\<open>SetString\<close> on the probe key), and so does the walk
  that reaches the map with that segment and \<^verbatim>\<open>Lookup\<close> on such a map.  On a map whose
  key type is of kind string, a segment without index never panics.
\<close>

theorem map_key_kind:
  "(Kind_t kt \<noteq> KString \<and> parseIndex seg = Ok (name, i) \<longrightarrow>
      getValueByName EqualFold (VMap kt t es) seg opts = Panic \<and>
      lookup_loop EqualFold te (VMap kt t es) (seg # rest) opts = Panic \<and>
      (Split path SplitToken = seg # rest \<longrightarrow> Lookup EqualFold te (VMap kt t es) path opts = Panic)) \<and>
   (Kind_t kt = KString \<and> parseIndex seg = Ok (name, - 1) \<longrightarrow>
      getValueByName EqualFold (VMap kt t es) seg opts \<noteq> Panic)"
proof (intro conjI impI)
  assume h: "Kind_t kt \<noteq> KString \<and> parseIndex seg = Ok (name, i)"
  then show g: "getValueByName EqualFold (VMap kt t es) seg opts = Panic"
    by (simp add: getValueByName.simps matchKey_def)
  have e: "expand opts (VMap kt t es) = VMap kt t es"
    by (simp add: expand_def expandStringAsJSON_def)
  from g e show l: "lookup_loop EqualFold te (VMap kt t es) (seg # rest) opts = Panic"
    by (simp add: IsValid_def)
  assume "Split path SplitToken = seg # rest"
  with l e show "Lookup EqualFold te (VMap kt t es) path opts = Panic"
    by (simp add: Lookup_def lookup.simps)
next
  assume "Kind_t kt = KString \<and> parseIndex seg = Ok (name, - 1)"
  then show "getValueByName EqualFold (VMap kt t es) seg opts \<noteq> Panic"
    by (simp add: getValueByName.simps matchKey_def applyIndex_def Let_def
        split: option.splits prod.splits)
qed

theorem map_key_kind_witness:
  "Lookup asciiEqualFold fixtureTypes (VMap TInt TInt [(KeyInt 1, VInt 2)]) ''foo'' noOptions = Panic \<and>
   getValueByName asciiEqualFold mapFixture ''foo'' noOptions \<noteq> Panic"
proof -
  have p: "parseIndex ''foo'' = Ok (''foo'', - 1)"
    by (simp add: parseIndex_def IndexOpenChar_def IndexCloseChar_def)
  have s: "Split ''foo'' SplitToken = [''foo'']"
    by (simp add: SplitToken_def)
  have "Lookup asciiEqualFold fixtureTypes (VMap TInt TInt [(KeyInt 1, VInt 2)]) ''foo'' noOptions = Panic"
    using map_key_kind [of TInt "''foo''" "''foo''" "- 1" asciiEqualFold TInt "[(KeyInt 1, VInt 2)]" noOptions
        fixtureTypes "[]" "''foo''"] p s
    by simp
  moreover have "getValueByName asciiEqualFold mapFixture ''foo'' noOptions \<noteq> Panic"
    using map_key_kind [of TString "''foo''" "''foo''" "- 1" asciiEqualFold TInt "[(KeyString ''foo'', VInt 42)]"
        noOptions] p
    by (simp add: mapFixture_def)
  ultimately show ?thesis by simp
qed

text \<open>\<^verbatim>\<open>TestLookup_Map\<close>.\<close>

lemma fixture_map_named: "Lookup asciiEqualFold fixtureTypes mapFixture ''foo'' noOptions = Ok (VInt 42)"
  by code_simp

text \<open>
  C10 as stated fails for a segment that does not parse: the segment is parsed before
  the kind of the value is looked at, so on \<^verbatim>\<open>map[int]int{1: 2}\<close> the path \<^verbatim>\<open>foo[\<close>
  returns \<^verbatim>\<open>ErrMalformedIndex\<close> and nothing panics.
\<close>

theorem map_key_kind_counterexample:
  "Lookup asciiEqualFold fixtureTypes (VMap TInt TInt [(KeyInt 1, VInt 2)]) ''foo['' noOptions
     = Err ErrMalformedIndex"
  by code_simp

text \<open>
  Resolved on a pointer or an interface, a segment is resolved on what it refers to as
  its bare name: its index is dropped.
\<close>

lemma getValueByName_indirection_drops_index:
  assumes "parseIndex seg = Ok (name, i)" "Kind v = KPtr \<or> Kind v = KInterface"
  shows "getValueByName EqualFold v seg opts = getValueByName EqualFold (Elem v) name opts"
  using assms by (simp add: getValueByName.simps [of EqualFold v seg])

text \<open>
  C6 (as amended).  A segment that carries an index \<open>i\<close>, resolved on a value that is
  not itself a pointer or an interface, with a matched value that is, stripped of its
  indirections, a slice of length \<open>n \<le> i\<close>: \<^verbatim>\<open>Value.Index\<close> panics, so the
  resolution and the walk that reaches the value with that segment panic, and no error
  is returned.
\<close>

theorem getValueByName_index_out_of_range:
  assumes "parseIndex seg = Ok (name, i)"
    and "Kind v \<noteq> KPtr" "Kind v \<noteq> KInterface"
    and "matchByName EqualFold v name opts = Ok m"
    and "getRealValue m = VSlice t xs" "int (length xs) \<le> i"
  shows "getValueByName EqualFold v seg opts = Panic \<and>
         lookup_loop EqualFold te v (seg # rest) opts = Panic"
proof -
  have "IsValid (getRealValue m)"
    using assms(5) by (simp add: IsValid_def)
  then have valid: "IsValid m"
    by (rule getRealValue_invalid)
  have "applyIndex m i = Panic"
    using valid assms(5,6) by (rule applyIndex_out_of_range)
  with assms(1-4) have g: "getValueByName EqualFold v seg opts = Panic"
    by (simp add: getValueByName.simps)
  have "m \<noteq> VInvalid"
    using valid by (auto simp: IsValid_def)
  with assms(4) have "Kind v = KStruct \<or> Kind v = KMap"
    by (cases v) auto
  then have "expand opts v = v" "IsValid v"
    by (cases v; simp add: expand_def expandStringAsJSON_def IsValid_def)+
  with g show ?thesis
    by simp
qed

theorem getValueByName_index_out_of_range_witness:
  "getValueByName asciiEqualFold holderSlice ''X[1]'' noOptions = Panic \<and>
   lookup_loop asciiEqualFold fixtureTypes holderSlice [''X[1]''] noOptions = Panic"
proof -
  have p: "parseIndex ''X[1]'' = Ok (''X'', 1)"
    by (simp add: parseIndex_def IndexOpenChar_def IndexCloseChar_def substr_def Atoi_def
        is_digit_def)
  have k: "Kind holderSlice \<noteq> KPtr" "Kind holderSlice \<noteq> KInterface"
    by (simp_all add: holderSlice_def)
  have m: "matchByName asciiEqualFold holderSlice ''X'' noOptions = Ok (VSlice TInt [VInt 1])"
    by (simp add: holderSlice_def matchField_def FieldByName_def noOptions_def)
  have r: "getRealValue (VSlice TInt [VInt 1]) = VSlice TInt [VInt 1]"
    by simp
  have l: "int (length [VInt 1]) \<le> 1"
    by simp
  show ?thesis
    by (rule getValueByName_index_out_of_range [OF p k m r l])
qed

text \<open>
  C6 as stated fails: nothing checks the index against the length of the slice and the
  package has no error for an index out of range.  \<^verbatim>\<open>StructSlice\<close> of the fixture has
  two elements, and the index \<open>2\<close> makes \<^verbatim>\<open>Lookup\<close> panic.
\<close>

theorem Lookup_index_out_of_range_counterexample:
  "Lookup asciiEqualFold fixtureTypes structFixture ''StructSlice[2].String'' noOptions = Panic"
  by code_simp

text \<open>The index \<open>1\<close> is within the bounds and resolves.\<close>

lemma fixture_index_in_range:
  "Lookup asciiEqualFold fixtureTypes structFixture ''StructSlice[1].String'' noOptions
     = Ok (VString ''qux'' None)"
  by code_simp

section \<open>Maps and the order of iteration\<close>








text \<open>\<^verbatim>\<open>TestLookup_Map_CaseInsensitive_ExactMatch\<close>.\<close>

lemma fixture_case_exact:
  "Lookup asciiEqualFold fixtureTypes (VMap TString TInt caseFixtureMap) ''Testkey'' caseInsensitive = Ok (VInt 2)"
  by code_simp

section \<open>The sentinel index\<close>

lemma Index_take: "c \<in> set (take n s) \<Longrightarrow> 0 \<le> Index s c \<and> Index s c < int n"
proof (induction s arbitrary: n)
  case Nil
  then show ?case by simp
next
  case (Cons x xs)
  then obtain m where n: "n = Suc m" by (cases n) auto
  show ?case
  proof (cases "x = c")
    case True
    with n show ?thesis by simp
  next
    case False
    with Cons.prems n have "c \<in> set (take m xs)" by simp
    then have "0 \<le> Index xs c \<and> Index xs c < int m" by (rule Cons.IH)
    with False n show ?thesis by (simp add: Let_def)
  qed
qed

lemma parseIndex_name_plain:
  assumes "parseIndex s = Ok (name, i)"
  shows "IndexOpenChar \<notin> set name \<and> IndexCloseChar \<notin> set name"
proof (cases "Index s IndexOpenChar = - 1 \<and> Index s IndexCloseChar = - 1")
  case True
  with assms have "name = s" by (simp add: parseIndex_def)
  with True show ?thesis by (simp add: Index_absent_iff)
next
  case False
  define start where "start = Index s IndexOpenChar"
  define stop where "stop = Index s IndexCloseChar"
  from assms False have both: "start \<noteq> - 1" "stop \<noteq> - 1"
    unfolding start_def stop_def
    by (auto simp: parseIndex_def Let_def split: if_splits)
  from assms False both obtain digits where
    d: "substr s (start + 1) stop = Some digits" and n: "substr s 0 start = Some name"
    unfolding start_def stop_def
    by (auto simp: parseIndex_def Let_def split: if_splits option.splits)
  from d have le: "start + 1 \<le> stop" "0 \<le> start + 1"
    by (auto simp: substr_def split: if_splits)
  from n have name: "name = take (nat start) s" "0 \<le> start"
    by (auto simp: substr_def split: if_splits)
  have "IndexOpenChar \<notin> set name"
  proof
    assume "IndexOpenChar \<in> set name"
    then have "Index s IndexOpenChar < int (nat start)"
      using Index_take [of IndexOpenChar "nat start" s] name by simp
    with name show False by (simp add: start_def)
  qed
  moreover have "IndexCloseChar \<notin> set name"
  proof
    assume "IndexCloseChar \<in> set name"
    then have "Index s IndexCloseChar < int (nat start)"
      using Index_take [of IndexCloseChar "nat start" s] name by simp
    with name le show False by (simp add: stop_def)
  qed
  ultimately show ?thesis by simp
qed

lemma getValueByName_dropSentinel:
  "getValueByName EqualFold v (dropSentinel s) opts = getValueByName EqualFold v s opts"
proof (cases "parseIndex s")
  case (Ok r)
  obtain name i where r: "r = (name, i)" by (cases r)
  show ?thesis
  proof (cases "i = - 1")
    case True
    from Ok r have "parseIndex name = Ok (name, - 1)"
      using parseIndex_name_plain [of s name i] by (simp add: parseIndex_plain)
    with Ok r True show ?thesis
      by (simp add: dropSentinel_def getValueByName.simps [of EqualFold v s]
          getValueByName.simps [of EqualFold v name])
  next
    case False
    with Ok r show ?thesis by (simp add: dropSentinel_def)
  qed
qed (simp_all add: dropSentinel_def)

lemma noEmpty_getRealValue: "noEmptyCollection v \<Longrightarrow> noEmptyCollection (getRealValue v)"
  by (induction v rule: getRealValue.induct) auto

lemma noEmpty_map_of:
  "\<forall>x \<in> set (map snd es). noEmptyCollection x \<Longrightarrow> map_of es k = Some x \<Longrightarrow> noEmptyCollection x"
  by (force dest: map_of_SomeD)

lemma noEmpty_find:
  "\<forall>x \<in> set (map snd es). noEmptyCollection x \<Longrightarrow> find P es = Some (k, x) \<Longrightarrow> noEmptyCollection x"
  by (auto simp: find_Some_iff) (metis nth_mem snd_conv)

lemma noEmpty_MapIndex:
  "\<forall>x \<in> set (map snd es). noEmptyCollection x \<Longrightarrow> noEmptyCollection (MapIndex es k)"
  using noEmpty_map_of [of es k] by (auto simp: MapIndex_def split: option.splits)

lemma noEmpty_matchByName:
  assumes "noEmptyCollection v" "matchByName EqualFold v k opts = Ok m"
  shows "noEmptyCollection m"
proof (cases v)
  case (VStruct n fs)
  with assms(1) have all: "\<forall>x \<in> set (map snd fs). noEmptyCollection x" by simp
  have f: "noEmptyCollection (FieldByName fs k)"
    using noEmpty_map_of [OF all, of k] by (auto simp: FieldByName_def split: option.splits)
  from assms(2) VStruct have "m = matchField EqualFold fs k opts" by simp
  with f noEmpty_find [OF all] show ?thesis
    by (auto simp: matchField_def Let_def split: option.splits if_splits)
next
  case (VMap kt t es)
  with assms(1) have all: "\<forall>x \<in> set (map snd es). noEmptyCollection x" by simp
  from assms(2) VMap noEmpty_MapIndex [OF all] show ?thesis
    by (auto simp: matchKey_def Let_def split: option.splits if_splits)
qed (use assms in auto)

lemma noEmpty_applyIndex:
  assumes "noEmptyCollection m" "applyIndex m i = Ok r"
  shows "noEmptyCollection r"
proof -
  have g: "noEmptyCollection (getRealValue m)"
    using assms(1) by (rule noEmpty_getRealValue)
  show ?thesis
  proof (cases "i = - 1")
    case True
    with assms(2) g show ?thesis
      by (auto simp: applyIndex_def split: if_splits)
  next
    case False
    with assms(2) obtain t xs x where
      "getRealValue m = VSlice t xs" "Value_Index xs i = Some x" "r = getRealValue x"
      by (auto simp: applyIndex_def Let_def split: if_splits option.splits val.splits)
    with g have "noEmptyCollection x"
      by (auto simp: Value_Index_def split: if_splits)
    with \<open>r = getRealValue x\<close> show ?thesis
      by (simp add: noEmpty_getRealValue)
  qed
qed

lemma noEmpty_getValueByName:
  "noEmptyCollection v \<Longrightarrow> getValueByName EqualFold v s opts = Ok r \<Longrightarrow> noEmptyCollection r"
proof (induction EqualFold v s opts rule: getValueByName.induct)
  case (1 EqualFold v key opts)
  from "1.prems"(2) obtain name i where p: "parseIndex key = Ok (name, i)"
    by (cases "parseIndex key") (auto simp: getValueByName.simps [of EqualFold v key])
  show ?case
  proof (cases "Kind v = KPtr \<or> Kind v = KInterface")
    case True
    with "1.prems" p have "getValueByName EqualFold (Elem v) name opts = Ok r"
      by (simp add: getValueByName.simps [of EqualFold v key])
    moreover from True "1.prems"(1) have "noEmptyCollection (Elem v)"
      by (cases v) auto
    ultimately show ?thesis
      using "1.IH" [OF p _ True] by simp
  next
    case False
    with "1.prems" p obtain m where "matchByName EqualFold v name opts = Ok m" "applyIndex m i = Ok r"
      by (auto simp: getValueByName.simps [of EqualFold v key] split: result.splits)
    with "1.prems"(1) show ?thesis
      using noEmpty_matchByName noEmpty_applyIndex by blast
  qed
qed

lemma noEmpty_expand: "noEmptyCollection v \<Longrightarrow> noEmptyCollection (expand opts v)"
  by (cases v) (auto simp: expand_def expandStringAsJSON_def split: option.splits)

lemma noEmpty_Interface: "noEmptyCollection x \<Longrightarrow> noEmptyCollection (Interface x)"
  by (cases x) auto

lemma noEmpty_aggregable:
  "isAggregable v \<Longrightarrow> noEmptyCollection v \<Longrightarrow>
   \<exists>l elems. Len v = Some l \<and> l \<noteq> 0 \<and> indexFunction v = Some elems \<and>
     (\<forall>x \<in> set elems. noEmptyCollection x)"
  by (cases v) (auto simp: isAggregable_def)

text \<open>
  As long as no aggregation meets an empty collection, the walk does not tell a segment
  with the sentinel index from its bare name.
\<close>

lemma lookup_dropSentinel:
  shows "noEmptyCollection i \<Longrightarrow>
           lookup EqualFold te i (map dropSentinel path) opts = lookup EqualFold te i path opts"
    and "noEmptyCollection v \<Longrightarrow>
           lookup_loop EqualFold te v (map dropSentinel path) opts = lookup_loop EqualFold te v path opts"
    and "noEmptyCollection v \<Longrightarrow> isAggregable v \<Longrightarrow>
           aggreateAggregableValue EqualFold te v (map dropSentinel path) opts
             = aggreateAggregableValue EqualFold te v path opts"
    and "\<forall>x \<in> set xs. noEmptyCollection x \<Longrightarrow>
           aggregate_loop EqualFold te xs (map dropSentinel path) opts values
             = aggregate_loop EqualFold te xs path opts values"
proof (induction EqualFold te i path opts and EqualFold te v path opts
    and EqualFold te v path opts and EqualFold te xs path opts "values"
    rule: lookup_lookup_loop_aggreateAggregableValue_aggregate_loop.induct)
  case (1 EqualFold te i path opts)
  then show ?case
    by (simp add: lookup.simps noEmpty_expand)
next
  case (2 EqualFold te "value" opts)
  then show ?case by simp
next
  case (3 EqualFold te "value" part rest opts)
  define parent where "parent = expand opts value"
  have ne: "noEmptyCollection parent"
    unfolding parent_def using "3.prems" by (rule noEmpty_expand)
  show ?case
  proof (cases "ExpandStringAsJSON opts \<and> \<not> IsValid parent")
    case True
    then show ?thesis by (simp add: parent_def)
  next
    case False
    show ?thesis
    proof (cases "getValueByName EqualFold parent part opts")
      case (Ok r)
      then have "noEmptyCollection r"
        using ne noEmpty_getValueByName by blast
      then have "lookup_loop EqualFold te r (map dropSentinel rest) opts = lookup_loop EqualFold te r rest opts"
        using "3.IH"(1) [OF parent_def False Ok] by simp
      with Ok False show ?thesis
        by (auto simp: parent_def [symmetric] getValueByName_dropSentinel)
    next
      case (Err e)
      show ?thesis
      proof (cases "isAggregable parent")
        case True
        then have "aggreateAggregableValue EqualFold te parent (map dropSentinel (part # rest)) opts
            = aggreateAggregableValue EqualFold te parent (part # rest) opts"
          using "3.IH"(2) [OF parent_def False Err] ne by simp
        with Err False True show ?thesis
          by (auto simp: parent_def [symmetric] getValueByName_dropSentinel)
      next
        case nonagg: False
        with Err False show ?thesis
          by (auto simp: parent_def [symmetric] getValueByName_dropSentinel)
      qed
    next
      case Panic
      with False show ?thesis
        by (auto simp: parent_def [symmetric] getValueByName_dropSentinel)
    qed
  qed
next
  case (4 EqualFold te v path opts)
  from noEmpty_aggregable [OF "4.prems"(2,1)] obtain l elems where
    v: "Len v = Some l" "l \<noteq> 0" "indexFunction v = Some elems"
      "\<forall>x \<in> set elems. noEmptyCollection x"
    by blast
  then have "aggregate_loop EqualFold te elems (map dropSentinel path) opts []
      = aggregate_loop EqualFold te elems path opts []"
    using "4.IH" by simp
  with v show ?case
    by (simp add: aggreateAggregableValue.simps)
next
  case (5 EqualFold te path opts "values")
  then show ?case by simp
next
  case (6 EqualFold te x xs path opts "values")
  from "6.prems" have "noEmptyCollection (Interface x)"
    by (simp add: noEmpty_Interface)
  then have eq: "lookup EqualFold te (Interface x) (map dropSentinel path) opts
      = lookup EqualFold te (Interface x) path opts"
    using "6.IH"(1) by simp
  show ?case
  proof (cases "lookup EqualFold te (Interface x) path opts")
    case (Ok r)
    with eq "6.IH"(2) [OF Ok] "6.prems" show ?thesis by simp
  qed (simp_all add: eq)
qed


lemma parseIndex_sentinel:
  assumes "IndexOpenChar \<notin> set name" "IndexCloseChar \<notin> set name"
  shows "parseIndex (name @ ''[-1]'') = Ok (name, - 1)"
proof -
  have a: "Atoi ''-1'' = Some (- 1)"
    by (simp add: Atoi_def is_digit_def)
  have c: "IndexCloseChar \<notin> set ''-1''"
    by (simp add: IndexCloseChar_def)
  have "name @ ''[-1]'' = name @ [IndexOpenChar] @ ''-1'' @ [IndexCloseChar] @ []"
    by (simp add: IndexOpenChar_def IndexCloseChar_def)
  then show ?thesis
    using parseIndex_bracketed [OF assms c, of "[]"] a by simp
qed

text \<open>
  C9 (as amended).  A segment \<open>name[-1]\<close> parses, with the index \<open>-1\<close> that also
  stands for "no index", and it resolves on every value and under all options exactly as
  \<open>name\<close> does.  On a value that holds no empty slice and no empty map, \<^verbatim>\<open>Lookup\<close> over
  a path returns what it returns over the path in which such segments are replaced by
  their names.
\<close>

theorem sentinel_index_ignored:
  "(IndexOpenChar \<notin> set name \<and> IndexCloseChar \<notin> set name \<longrightarrow>
      parseIndex (name @ ''[-1]'') = Ok (name, - 1) \<and>
      dropSentinel (name @ ''[-1]'') = name \<and>
      getValueByName EqualFold v (name @ ''[-1]'') opts = getValueByName EqualFold v name opts) \<and>
   (noEmptyCollection v \<and> Split path' SplitToken = map dropSentinel (Split path SplitToken) \<longrightarrow>
      Lookup EqualFold te v path' opts = Lookup EqualFold te v path opts)"
proof (intro conjI impI)
  assume h: "IndexOpenChar \<notin> set name \<and> IndexCloseChar \<notin> set name"
  then show p: "parseIndex (name @ ''[-1]'') = Ok (name, - 1)"
    by (simp add: parseIndex_sentinel)
  then show d: "dropSentinel (name @ ''[-1]'') = name"
    by (simp add: dropSentinel_def)
  show "getValueByName EqualFold v (name @ ''[-1]'') opts = getValueByName EqualFold v name opts"
    using getValueByName_dropSentinel [of EqualFold v "name @ ''[-1]''" opts] d by simp
next
  assume "noEmptyCollection v \<and>
    Split path' SplitToken = map dropSentinel (Split path SplitToken)"
  then show "Lookup EqualFold te v path' opts = Lookup EqualFold te v path opts"
    by (simp add: Lookup_def lookup_dropSentinel(1))
qed

theorem sentinel_index_ignored_witness:
  "getValueByName asciiEqualFold holderSlices ''Items[-1]'' noOptions = getValueByName asciiEqualFold holderSlices ''Items'' noOptions \<and>
   Lookup asciiEqualFold fixtureTypes holderSlices ''Items[-1].X[-1]'' noOptions = Ok (VSlice TInt [VInt 1, VInt 1]) \<and>
   Lookup asciiEqualFold fixtureTypes holderSlices ''Items.X'' noOptions = Ok (VSlice TInt [VInt 1, VInt 1])"
proof -
  have b: "IndexOpenChar \<notin> set ''Items'' \<and> IndexCloseChar \<notin> set ''Items''"
    "IndexOpenChar \<notin> set ''X'' \<and> IndexCloseChar \<notin> set ''X''"
    by (simp_all add: IndexOpenChar_def IndexCloseChar_def)
  have g: "getValueByName asciiEqualFold holderSlices ''Items[-1]'' noOptions
      = getValueByName asciiEqualFold holderSlices ''Items'' noOptions"
    using sentinel_index_ignored [of "''Items''" asciiEqualFold holderSlices noOptions] b by simp
  have ne: "noEmptyCollection holderSlices"
    by (simp add: holderSlices_def holderSlice_def)
  have d: "dropSentinel ''Items[-1]'' = ''Items''" "dropSentinel ''X[-1]'' = ''X''"
    using sentinel_index_ignored [of "''Items''"] sentinel_index_ignored [of "''X''"] b
    by simp_all
  have s: "Split ''Items.X'' SplitToken = map dropSentinel (Split ''Items[-1].X[-1]'' SplitToken)"
    by (simp add: SplitToken_def d)
  have e: "Lookup asciiEqualFold fixtureTypes holderSlices ''Items.X'' noOptions
      = Lookup asciiEqualFold fixtureTypes holderSlices ''Items[-1].X[-1]'' noOptions"
    using sentinel_index_ignored [where v = holderSlices and path' = "''Items.X''"
        and path = "''Items[-1].X[-1]''" and te = fixtureTypes and opts = noOptions
        and EqualFold = asciiEqualFold] ne s
    by simp
  have "Lookup asciiEqualFold fixtureTypes holderSlices ''Items.X'' noOptions = Ok (VSlice TInt [VInt 1, VInt 1])"
    by code_simp
  with g e show ?thesis by simp
qed

text \<open>
  C9 as stated fails on an empty collection: the structural type resolver looks for a
  \<open>[\<close> in the segment, takes \<open>String[-1]\<close> for an indexed segment and consumes it,
  so that the empty result is typed by the struct and not by its field.
\<close>

theorem sentinel_index_counterexample:
  "Lookup asciiEqualFold fixtureTypes (VSlice (TStruct ''MyStruct'') []) ''String[-1]'' noOptions
     = Ok (VSlice (TStruct ''MyStruct'') []) \<and>
   Lookup asciiEqualFold fixtureTypes (VSlice (TStruct ''MyStruct'') []) ''String'' noOptions
     = Ok (VSlice TString [])"
proof -
  have "Lookup asciiEqualFold fixtureTypes (VSlice (TStruct ''MyStruct'') []) ''String[-1]'' noOptions
     = Ok (VSlice (TStruct ''MyStruct'') [])"
    by code_simp
  moreover have "Lookup asciiEqualFold fixtureTypes (VSlice (TStruct ''MyStruct'') []) ''String'' noOptions
     = Ok (VSlice TString [])"
    by code_simp
  ultimately show ?thesis by simp
qed

end
